theory Spec2Isabelle
  imports Main "HOL-Library.Sublist"
begin

section \<open>Python string primitives used by the generators\<close>

text \<open>\<^verbatim>\<open>sep.join(xs)\<close> on a list of strings.\<close>

fun str_join :: "string \<Rightarrow> string list \<Rightarrow> string" where
  "str_join sep [] = []"
| "str_join sep [x] = x"
| "str_join sep (x # y # ys) = x @ sep @ str_join sep (y # ys)"

text \<open>\<^verbatim>\<open>str(n)\<close> for an unbounded Python integer, as an f-string renders it.\<close>

definition digit_char :: "nat \<Rightarrow> char" where
  "digit_char d = char_of (48 + d)"

fun str_nat :: "nat \<Rightarrow> string" where
  "str_nat n = (if n < 10 then [digit_char n] else str_nat (n div 10) @ [digit_char (n mod 10)])"

declare str_nat.simps [simp del]

definition str_int :: "int \<Rightarrow> string" where
  "str_int i = (if i < 0 then CHR ''-'' # str_nat (nat (- i)) else str_nat (nat i))"

section \<open>DynamicSQLBuilder (advanced\_sql\_generator.py)\<close>

text \<open>
  The dictionary \<^verbatim>\<open>self.query_parts\<close> has a fixed set of keys, so it is a record with one
  field per key.  The key \<^verbatim>\<open>'limit'\<close> holds \<^verbatim>\<open>None\<close> or the rendered clause.
\<close>

record query_parts =
  qp_select :: "string list"
  qp_from :: string
  qp_joins :: "string list"
  qp_where :: "string list"
  qp_group_by :: "string list"
  qp_having :: "string list"
  qp_order_by :: "string list"
  qp_limit :: "string option"

text \<open>\<^verbatim>\<open>__init__\<close>: the state of a freshly created builder.\<close>

definition DynamicSQLBuilder_init :: query_parts where
  "DynamicSQLBuilder_init =
     \<lparr> qp_select = [], qp_from = [], qp_joins = [], qp_where = [], qp_group_by = [],
       qp_having = [], qp_order_by = [], qp_limit = None \<rparr>"

text \<open>
  \<^verbatim>\<open>f"{table} {alias}" if alias else table\<close>, the expression shared by \<^verbatim>\<open>from_table\<close> and
  \<^verbatim>\<open>join\<close>.  Python truthiness: \<^verbatim>\<open>None\<close> and the empty string are both false.
\<close>

definition table_ref_of :: "string \<Rightarrow> string option \<Rightarrow> string" where
  "table_ref_of table alias =
     (case alias of None \<Rightarrow> table
      | Some a \<Rightarrow> if a \<noteq> [] then table @ '' '' @ a else table)"

text \<open>
  The mutators.  Each takes the state of \<^verbatim>\<open>self\<close> last and returns the updated state;
  default arguments are passed explicitly (\<^verbatim>\<open>alias=None\<close>, \<^verbatim>\<open>offset=None\<close>,
  \<^verbatim>\<open>join_type='INNER'\<close>, \<^verbatim>\<open>direction='ASC'\<close>).  In \<^verbatim>\<open>limit\<close>, \<^verbatim>\<open>if offset\<close> is
  Python truthiness on an optional integer: \<^verbatim>\<open>None\<close> and 0 are both false.
\<close>

definition select :: "string list \<Rightarrow> query_parts \<Rightarrow> query_parts" where
  "select columns self = self\<lparr>qp_select := qp_select self @ columns\<rparr>"

definition from_table :: "string \<Rightarrow> string option \<Rightarrow> query_parts \<Rightarrow> query_parts" where
  "from_table table alias self =
     self\<lparr>qp_from := table_ref_of table alias\<rparr>"

definition join :: "string \<Rightarrow> string \<Rightarrow> string \<Rightarrow> string option \<Rightarrow> query_parts \<Rightarrow> query_parts" where
  "join table on_condition join_type alias self =
     (let table_ref = table_ref_of table alias
      in self\<lparr>qp_joins := qp_joins self @ [join_type @ '' JOIN '' @ table_ref @ '' ON '' @ on_condition]\<rparr>)"

definition where_cond :: "string \<Rightarrow> query_parts \<Rightarrow> query_parts" where
  "where_cond condition self = self\<lparr>qp_where := qp_where self @ [condition]\<rparr>"

definition group_by :: "string list \<Rightarrow> query_parts \<Rightarrow> query_parts" where
  "group_by columns self = self\<lparr>qp_group_by := qp_group_by self @ columns\<rparr>"

definition order_by :: "string \<Rightarrow> string \<Rightarrow> query_parts \<Rightarrow> query_parts" where
  "order_by column direction self =
     self\<lparr>qp_order_by := qp_order_by self @ [column @ '' '' @ direction]\<rparr>"

definition limit :: "int \<Rightarrow> int option \<Rightarrow> query_parts \<Rightarrow> query_parts" where
  "limit count offset self =
     (let self = self\<lparr>qp_limit := Some (''LIMIT '' @ str_int count)\<rparr>
      in case offset of None \<Rightarrow> self
         | Some off \<Rightarrow>
             if off \<noteq> 0
             then self\<lparr>qp_limit := map_option (\<lambda>l. l @ '' OFFSET '' @ str_int off) (qp_limit self)\<rparr>
             else self)"

definition reset :: "query_parts \<Rightarrow> query_parts" where
  "reset self = DynamicSQLBuilder_init"

text \<open>
  \<^verbatim>\<open>build\<close>: the list \<^verbatim>\<open>parts\<close> is grown clause by clause, each \<^verbatim>\<open>if\<close> of the source
  being one rebinding of \<^verbatim>\<open>parts\<close>, and joined with single spaces at the end.
\<close>

definition build_parts :: "query_parts \<Rightarrow> string list" where
  "build_parts self =
     (let parts = [];
          select_clause = ''SELECT '' @
             (let joined = str_join '', '' (qp_select self) in if joined \<noteq> [] then joined else ''*'');
          parts = parts @ [select_clause];
          parts = (if qp_from self \<noteq> [] then parts @ [''FROM '' @ qp_from self] else parts);
          parts = (if qp_joins self \<noteq> [] then parts @ qp_joins self else parts);
          parts = (if qp_where self \<noteq> []
                   then parts @ [''WHERE '' @ str_join '' AND '' (qp_where self)] else parts);
          parts = (if qp_group_by self \<noteq> []
                   then parts @ [''GROUP BY '' @ str_join '', '' (qp_group_by self)] else parts);
          parts = (if qp_having self \<noteq> []
                   then parts @ [''HAVING '' @ str_join '' AND '' (qp_having self)] else parts);
          parts = (if qp_order_by self \<noteq> []
                   then parts @ [''ORDER BY '' @ str_join '', '' (qp_order_by self)] else parts);
          parts = (case qp_limit self of None \<Rightarrow> parts
                   | Some l \<Rightarrow> if l \<noteq> [] then parts @ [l] else parts)
      in parts)"

definition build :: "query_parts \<Rightarrow> string" where
  "build self = str_join '' '' (build_parts self)"

text \<open>
  Every mutator ends in \<^verbatim>\<open>return self\<close>.  To speak about the identity of the returned
  object, builders live in a store indexed by references; a method call updates the state
  stored at \<^verbatim>\<open>self\<close> and returns the reference it was called on.
\<close>

type_synonym ref = nat
type_synonym store = "ref \<Rightarrow> query_parts"

definition call_method :: "(query_parts \<Rightarrow> query_parts) \<Rightarrow> ref \<Rightarrow> store \<Rightarrow> ref \<times> store" where
  "call_method body self st = (self, st(self := body (st self)))"


text \<open>
  The public mutating interface of the class, one constructor per method (\<^verbatim>\<open>select\<close>,
  \<^verbatim>\<open>from_table\<close>, \<^verbatim>\<open>join\<close>, \<^verbatim>\<open>where\<close>, \<^verbatim>\<open>group_by\<close>, \<^verbatim>\<open>order_by\<close>, \<^verbatim>\<open>limit\<close>,
  \<^verbatim>\<open>reset\<close>), and the effect of a sequence of calls on one builder.
\<close>

datatype call =
    Select "string list"
  | From_table string "string option"
  | Join string string string "string option"
  | Where_cond string
  | Group_by "string list"
  | Order_by string string
  | Limit int "int option"
  | Reset

fun apply_call :: "call \<Rightarrow> query_parts \<Rightarrow> query_parts" where
  "apply_call (Select columns) self = select columns self"
| "apply_call (From_table table alias) self = from_table table alias self"
| "apply_call (Join table on_condition join_type alias) self =
     join table on_condition join_type alias self"
| "apply_call (Where_cond condition) self = where_cond condition self"
| "apply_call (Group_by columns) self = group_by columns self"
| "apply_call (Order_by column direction) self = order_by column direction self"
| "apply_call (Limit count offset) self = limit count offset self"
| "apply_call Reset self = reset self"

definition run :: "call list \<Rightarrow> query_parts \<Rightarrow> query_parts" where
  "run calls self = fold apply_call calls self"

text \<open>The calls that write the WHERE sequence: \<^verbatim>\<open>where\<close> appends to it, \<^verbatim>\<open>reset\<close> empties it.\<close>

fun where_or_reset :: "call \<Rightarrow> bool" where
  "where_or_reset (Where_cond condition) = True"
| "where_or_reset Reset = True"
| "where_or_reset other = False"



text \<open>
  The calls that write the source table: \<^verbatim>\<open>from_table\<close> sets it, \<^verbatim>\<open>reset\<close> clears it
  together with the joins.
\<close>

fun from_or_reset :: "call \<Rightarrow> bool" where
  "from_or_reset (From_table table alias) = True"
| "from_or_reset Reset = True"
| "from_or_reset other = False"

text \<open>
  The join clauses a sequence of calls asks for, in call order: one clause per \<^verbatim>\<open>join\<close>
  call, written as \<^verbatim>\<open>join\<close> formats it.
\<close>

fun join_clause_of :: "call \<Rightarrow> string list" where
  "join_clause_of (Join table on_condition join_type alias) =
     [join_type @ '' JOIN '' @ table_ref_of table alias @ '' ON '' @ on_condition]"
| "join_clause_of other = []"

definition join_clauses :: "call list \<Rightarrow> string list" where
  "join_clauses calls = concat (map join_clause_of calls)"

section \<open>SQLTemplateEngine (advanced\_sql\_generator.py)\<close>

subsection \<open>\<^verbatim>\<open>string.Template.safe_substitute\<close>\<close>

text \<open>
  The engine stores \<^verbatim>\<open>string.Template\<close> objects and renders them with
  \<^verbatim>\<open>safe_substitute\<close>, which is \<^verbatim>\<open>pattern.sub(convert, template)\<close>.  The pattern is the
  delimiter \<^verbatim>\<open>$\<close> followed by one of four alternatives, tried in this order: a second
  delimiter (group \<^verbatim>\<open>escaped\<close>), an identifier (group \<^verbatim>\<open>named\<close>), an identifier between
  braces (group \<^verbatim>\<open>braced\<close>), or nothing (group \<^verbatim>\<open>invalid\<close>).  An identifier is
  \<^verbatim>\<open>[_a-z][_a-z0-9]*\<close>, ASCII only, compiled case-insensitively.  A match object is the
  alternative that matched, with the identifier it captured.
\<close>

datatype match_object = Escaped | Named string | Braced string | Invalid

definition id_start_chars :: string where
  "id_start_chars = ''_abcdefghijklmnopqrstuvwxyzABCDEFGHIJKLMNOPQRSTUVWXYZ''"

definition is_id_start :: "char \<Rightarrow> bool" where
  "is_id_start c = (c \<in> set id_start_chars)"

definition is_id_char :: "char \<Rightarrow> bool" where
  "is_id_char c = (c \<in> set (id_start_chars @ ''0123456789''))"

text \<open>
  The match at a delimiter: given the text that follows a \<^verbatim>\<open>$\<close>, the alternative that
  matches and the text that remains after the match.  The identifier is matched greedily;
  the braced form needs its closing brace right after the identifier; when nothing else
  matches, the empty \<^verbatim>\<open>invalid\<close> group does and the match is the delimiter alone.
\<close>

definition pattern_match :: "string \<Rightarrow> match_object \<times> string" where
  "pattern_match cs =
     (case cs of
        [] \<Rightarrow> (Invalid, cs)
      | d # ds \<Rightarrow>
          if d = CHR ''$'' then (Escaped, ds)
          else if is_id_start d then (Named (takeWhile is_id_char cs), dropWhile is_id_char cs)
          else if d = CHR ''{'' \<and> ds \<noteq> [] \<and> is_id_start (hd ds) then
            (case dropWhile is_id_char ds of
               [] \<Rightarrow> (Invalid, cs)
             | e # es \<Rightarrow>
                 if e = CHR ''}'' then (Braced (takeWhile is_id_char ds), es) else (Invalid, cs))
          else (Invalid, cs))"

lemma pattern_match_shorter: "length (snd (pattern_match cs)) \<le> length cs"
proof (cases cs)
  case Nil
  then show ?thesis by (simp add: pattern_match_def)
next
  case (Cons d ds)
  have a: "length (dropWhile is_id_char ds) \<le> Suc (length ds)"
    by (rule le_SucI) (rule length_dropWhile_le)
  have b: "length es \<le> Suc (length ds)" if "dropWhile is_id_char ds = e # es" for e es
    using length_dropWhile_le [of is_id_char ds] that by simp
  show ?thesis
    using Cons a b by (auto simp: pattern_match_def split: list.splits)
qed

lemma pattern_match_rest: "(mo, rest) = pattern_match cs \<Longrightarrow> length rest < Suc (length cs)"
  using pattern_match_shorter [of cs] by (metis less_Suc_eq_le snd_conv)

text \<open>
  \<^verbatim>\<open>pattern.sub\<close> walks the template once from left to right: text outside a match is
  copied, each match is handed to \<^verbatim>\<open>convert\<close>, and the walk resumes after the match.
\<close>

datatype piece = Text char | Match match_object

function scan :: "string \<Rightarrow> piece list" where
  "scan [] = []"
| "scan (c # cs) =
     (if c = CHR ''$''
      then (case pattern_match cs of (mo, rest) \<Rightarrow> Match mo # scan rest)
      else Text c # scan cs)"
  by pat_completeness auto
termination
  by (relation "measure length") (auto intro: pattern_match_rest)

text \<open>\<^verbatim>\<open>mo.group()\<close>: the text of the whole match.\<close>

fun group :: "match_object \<Rightarrow> string" where
  "group Escaped = ''$$''"
| "group (Named name) = CHR ''$'' # name"
| "group (Braced name) = ''${'' @ name @ ''}''"
| "group Invalid = ''$''"

text \<open>\<^verbatim>\<open>mo.group('named') or mo.group('braced')\<close>.\<close>

fun named_or_braced :: "match_object \<Rightarrow> string option" where
  "named_or_braced (Named name) = Some name"
| "named_or_braced (Braced name) = Some name"
| "named_or_braced other = None"

text \<open>
  The replacement function of \<^verbatim>\<open>safe_substitute\<close>: a placeholder is replaced by
  \<^verbatim>\<open>str(mapping[named])\<close>, or kept as it is on a \<^verbatim>\<open>KeyError\<close>; an escaped delimiter
  becomes the delimiter; an invalid one is kept.  Values are strings.
\<close>

definition convert :: "(string \<rightharpoonup> string) \<Rightarrow> match_object \<Rightarrow> string" where
  "convert mapping mo =
     (case named_or_braced mo of
        Some named \<Rightarrow> (case mapping named of Some v \<Rightarrow> v | None \<Rightarrow> group mo)
      | None \<Rightarrow> if mo = Escaped then ''$'' else group mo)"

fun replace :: "(string \<rightharpoonup> string) \<Rightarrow> piece \<Rightarrow> string" where
  "replace mapping (Text c) = [c]"
| "replace mapping (Match mo) = convert mapping mo"

definition safe_substitute :: "string \<Rightarrow> (string \<rightharpoonup> string) \<Rightarrow> string" where
  "safe_substitute template mapping = concat (map (replace mapping) (scan template))"

subsection \<open>The engine\<close>

datatype error = ValueError string

text \<open>\<^verbatim>\<open>self.templates\<close>: template name to pattern string.\<close>

type_synonym templates = "string \<rightharpoonup> string"

definition SQLTemplateEngine_init :: templates where
  "SQLTemplateEngine_init = map_of
     [(''basic_select'', ''SELECT $columns FROM $table''),
      (''filtered_select'', ''SELECT $columns FROM $table WHERE $conditions''),
      (''joined_select'', ''SELECT $columns FROM $table $joins WHERE $conditions''),
      (''aggregated_select'',
         ''SELECT $group_columns, $aggregates FROM $table GROUP BY $group_columns''),
      (''paginated_select'',
         ''SELECT $columns FROM $table ORDER BY $order_by LIMIT $limit OFFSET $offset''),
      (''basic_insert'', ''INSERT INTO $table ($columns) VALUES ($values)''),
      (''bulk_insert'', ''INSERT INTO $table ($columns) VALUES $value_sets''),
      (''insert_select'',
         ''INSERT INTO $table ($columns) SELECT $select_columns FROM $source_table WHERE $conditions''),
      (''basic_update'', ''UPDATE $table SET $assignments WHERE $conditions''),
      (''joined_update'', ''UPDATE $table $joins SET $assignments WHERE $conditions''),
      (''basic_delete'', ''DELETE FROM $table WHERE $conditions''),
      (''joined_delete'', ''DELETE $table FROM $table $joins WHERE $conditions''),
      (''create_table'', ''CREATE TABLE $table ($column_definitions)''),
      (''create_index'', ''CREATE INDEX $index_name ON $table ($columns)'')]"

definition add_template :: "string \<Rightarrow> string \<Rightarrow> templates \<Rightarrow> templates" where
  "add_template name template_string self = self(name \<mapsto> template_string)"

text \<open>
  \<^verbatim>\<open>generate_query\<close> returns the raised error or the rendered string, together with the
  registry and the caller's dictionary as the call leaves them: the body assigns to
  neither, and \<^verbatim>\<open>**variables\<close> hands the callee a copy.  The message of the
  \<^verbatim>\<open>ValueError\<close> puts the name between single quotes (character 0x27).
\<close>

definition generate_query ::
  "templates \<Rightarrow> string \<Rightarrow> (string \<rightharpoonup> string)
     \<Rightarrow> (error + string) \<times> templates \<times> (string \<rightharpoonup> string)" where
  "generate_query self template_name variables =
     (case self template_name of
        None \<Rightarrow>
          (Inl (ValueError (''Template '' @ [CHR 0x27] @ template_name @ [CHR 0x27] @ '' not found'')),
           self, variables)
      | Some template \<Rightarrow> (Inr (safe_substitute template variables), self, variables))"

subsection \<open>Notions used to state the properties\<close>

text \<open>The text a piece of the scan stands for in the template.\<close>

fun piece_text :: "piece \<Rightarrow> string" where
  "piece_text (Text c) = [c]"
| "piece_text (Match mo) = group mo"

text \<open>The number of consecutive delimiters at the end of a text.\<close>

definition dollars_before :: "string \<Rightarrow> nat" where
  "dollars_before pre = length (takeWhile (\<lambda>c. c = CHR ''$'') (rev pre))"

section \<open>Properties of the builder\<close>

subsection \<open>Joining strings and the shape of the clause list\<close>

lemma str_join_Cons: "str_join sep (x # xs) = x @ concat (map ((@) sep) xs)"
  by (induction xs arbitrary: x) simp_all

lemma str_join_snoc: "xs \<noteq> [] \<Longrightarrow> str_join sep (xs @ [y]) = str_join sep xs @ sep @ y"
  by (cases xs) (simp_all add: str_join_Cons)


lemma sublist_str_join: "x \<in> set xs \<Longrightarrow> sublist x (str_join sep xs)"
proof (induction xs)
  case Nil
  then show ?case by simp
next
  case (Cons a xs)
  show ?case
  proof (cases "x = a")
    case True
    then show ?thesis by (simp add: str_join_Cons)
  next
    case False
    with Cons have "sublist x (str_join sep xs)" by simp
    then obtain ps ss where "str_join sep xs = ps @ x @ ss"
      by (auto simp: sublist_def)
    then have "a @ sep @ str_join sep xs = (a @ sep @ ps) @ x @ ss" by simp
    then have "sublist x (a @ sep @ str_join sep xs)"
      unfolding sublist_def by blast
    moreover obtain y ys where "xs = y # ys" using Cons.prems False by (cases xs) auto
    ultimately show ?thesis by simp
  qed
qed



text \<open>The clause list of \<^verbatim>\<open>build\<close>, clause by clause.\<close>

lemma build_parts_eq:
  "build_parts b =
     [''SELECT '' @ (if str_join '', '' (qp_select b) \<noteq> [] then str_join '', '' (qp_select b) else ''*'')]
     @ (if qp_from b \<noteq> [] then [''FROM '' @ qp_from b] else [])
     @ qp_joins b
     @ (if qp_where b \<noteq> [] then [''WHERE '' @ str_join '' AND '' (qp_where b)] else [])
     @ (if qp_group_by b \<noteq> [] then [''GROUP BY '' @ str_join '', '' (qp_group_by b)] else [])
     @ (if qp_having b \<noteq> [] then [''HAVING '' @ str_join '' AND '' (qp_having b)] else [])
     @ (if qp_order_by b \<noteq> [] then [''ORDER BY '' @ str_join '', '' (qp_order_by b)] else [])
     @ (case qp_limit b of None \<Rightarrow> [] | Some l \<Rightarrow> if l \<noteq> [] then [l] else [])"
proof -
  have cond: "(if c then p @ x else p) = p @ (if c then x else [])"
    for c and p x :: "string list"
    by simp
  have opt: "(case lim of None \<Rightarrow> p | Some l \<Rightarrow> p @ f l)
           = p @ (case lim of None \<Rightarrow> [] | Some l \<Rightarrow> f l)"
    for lim :: "string option" and p :: "string list" and f
    by (cases lim) simp_all
  have all: "(if xs \<noteq> [] then xs else []) = xs" for xs :: "string list"
    by simp
  show ?thesis
    unfolding build_parts_def Let_def
    by (simp only: cond all opt append_Nil) (simp only: append_assoc)
qed

lemma build_init: "build DynamicSQLBuilder_init = ''SELECT *''"
  by (simp add: build_def build_parts_def DynamicSQLBuilder_init_def)

lemma limit_fields:
  "qp_select (limit n m b) = qp_select b" "qp_from (limit n m b) = qp_from b"
  "qp_joins (limit n m b) = qp_joins b" "qp_where (limit n m b) = qp_where b"
  "qp_group_by (limit n m b) = qp_group_by b" "qp_having (limit n m b) = qp_having b"
  "qp_order_by (limit n m b) = qp_order_by b"
  by (simp_all add: limit_def Let_def split: option.split)

subsection \<open>Reset\<close>

text \<open>
  Claim C8.  Whatever state the builder stored at \<open>self\<close> has reached, calling
  \<^verbatim>\<open>reset()\<close> returns the reference \<open>self\<close> itself, leaves at \<open>self\<close> the state of a
  freshly created builder, and \<^verbatim>\<open>build()\<close> on it yields exactly \<^verbatim>\<open>SELECT *\<close>, which is
  also what a fresh builder renders.
\<close>

theorem reset_restores_initial_state:
  "fst (call_method reset self st) = self
   \<and> snd (call_method reset self st) self = DynamicSQLBuilder_init
   \<and> build (snd (call_method reset self st) self) = ''SELECT *''
   \<and> build (snd (call_method reset self st) self) = build DynamicSQLBuilder_init"
proof -
  have "snd (call_method reset self st) self = DynamicSQLBuilder_init"
    by (simp add: call_method_def reset_def)
  moreover have "fst (call_method reset self st) = self"
    by (simp add: call_method_def)
  ultimately show ?thesis
    by (simp add: build_init)
qed

subsection \<open>HAVING\<close>

lemma having_apply_call: "qp_having b = [] \<Longrightarrow> qp_having (apply_call c b) = []"
  by (cases c)
     (simp_all add: select_def from_table_def join_def where_cond_def group_by_def order_by_def
        limit_fields reset_def DynamicSQLBuilder_init_def)

lemma having_fold: "qp_having b = [] \<Longrightarrow> qp_having (fold apply_call cs b) = []"
  by (induction cs arbitrary: b) (simp_all add: having_apply_call)

text \<open>
  Claim C2.  The class initialises the HAVING sequence and \<^verbatim>\<open>build\<close> renders it, but the
  class defines no \<^verbatim>\<open>having\<close> method: none of its mutators writes the sequence.  So after
  every sequence of calls on a fresh builder the HAVING sequence is still empty, and
  \<^verbatim>\<open>build\<close> never reaches its HAVING branch.
\<close>

theorem having_never_populated: "qp_having (run calls DynamicSQLBuilder_init) = []"
proof -
  have "qp_having DynamicSQLBuilder_init = []"
    by (simp add: DynamicSQLBuilder_init_def)
  then show ?thesis
    unfolding run_def by (rule having_fold)
qed

subsection \<open>WHERE\<close>

lemma where_apply_call: "\<not> where_or_reset c \<Longrightarrow> qp_where (apply_call c b) = qp_where b"
  by (cases c)
     (simp_all add: select_def from_table_def join_def group_by_def order_by_def limit_fields)

lemma where_run: "\<forall>c \<in> set cs. \<not> where_or_reset c \<Longrightarrow> qp_where (run cs b) = qp_where b"
  unfolding run_def by (induction cs arbitrary: b) (simp_all add: where_apply_call)

lemma where_clause_in_build:
  assumes "qp_where b \<noteq> []"
  shows "sublist (''WHERE '' @ str_join '' AND '' (qp_where b)) (build b)"
  unfolding build_def
  by (rule sublist_str_join) (simp add: build_parts_eq assms)

text \<open>
  Claim C4.  On a builder with no WHERE fragment yet, three calls \<^verbatim>\<open>where(c1)\<close>,
  \<^verbatim>\<open>where(c2)\<close>, \<^verbatim>\<open>where(c3)\<close>, with any calls of the other mutators before, between and
  after them, make \<^verbatim>\<open>build()\<close> contain the substring \<^verbatim>\<open>WHERE c1 AND c2 AND c3\<close>.
\<close>

theorem where_fragments_in_call_order:
  assumes "qp_where b = []"
    and "\<forall>c \<in> set (cs1 @ cs2 @ cs3). \<not> where_or_reset c"
  shows "sublist (''WHERE '' @ c1 @ '' AND '' @ c2 @ '' AND '' @ c3)
           (build (run cs3 (where_cond c3 (run cs2 (where_cond c2 (run cs1 (where_cond c1 b)))))))"
proof -
  let ?b = "run cs3 (where_cond c3 (run cs2 (where_cond c2 (run cs1 (where_cond c1 b)))))"
  have "qp_where ?b = [c1, c2, c3]"
    using assms by (simp add: where_run where_cond_def)
  then show ?thesis
    using where_clause_in_build [of ?b] by simp
qed

theorem where_fragments_in_call_order_witness:
  "qp_where DynamicSQLBuilder_init = []
   \<and> \<not> where_or_reset (Select [''id''])
   \<and> \<not> where_or_reset (From_table ''t'' None)
   \<and> \<not> where_or_reset (Limit 5 None)
   \<and> sublist ''WHERE a = 1 AND b = 2 AND c = 3''
        (build (run [Limit 5 None] (where_cond ''c = 3'' (run [From_table ''t'' None]
           (where_cond ''b = 2'' (run [Select [''id'']]
              (where_cond ''a = 1'' DynamicSQLBuilder_init)))))))
   \<and> build (run [Limit 5 None] (where_cond ''c = 3'' (run [From_table ''t'' None]
           (where_cond ''b = 2'' (run [Select [''id'']]
              (where_cond ''a = 1'' DynamicSQLBuilder_init))))))
       = ''SELECT id FROM t WHERE a = 1 AND b = 2 AND c = 3 LIMIT 5''"
proof -
  have h1: "qp_where DynamicSQLBuilder_init = []"
    by (simp add: DynamicSQLBuilder_init_def)
  have h2: "\<forall>c \<in> set ([Select [''id'']] @ [From_table ''t'' None] @ [Limit 5 None]).
              \<not> where_or_reset c"
    by simp
  have out: "build (run [Limit 5 None] (where_cond ''c = 3'' (run [From_table ''t'' None]
           (where_cond ''b = 2'' (run [Select [''id'']]
              (where_cond ''a = 1'' DynamicSQLBuilder_init))))))
       = ''SELECT id FROM t WHERE a = 1 AND b = 2 AND c = 3 LIMIT 5''"
    by code_simp
  show ?thesis
    using where_fragments_in_call_order [OF h1 h2, of "''a = 1''" "''b = 2''" "''c = 3''"] h1 out
    by simp
qed

subsection \<open>LIMIT\<close>

lemma build_limit_some:
  assumes "l \<noteq> []"
  shows "build (b\<lparr>qp_limit := Some l\<rparr>) = build (b\<lparr>qp_limit := None\<rparr>) @ '' '' @ l"
proof -
  have "build_parts (b\<lparr>qp_limit := Some l\<rparr>) = build_parts (b\<lparr>qp_limit := None\<rparr>) @ [l]"
    using assms by (simp add: build_parts_eq)
  moreover have "build_parts (b\<lparr>qp_limit := None\<rparr>) \<noteq> []"
    by (simp add: build_parts_eq)
  ultimately show ?thesis
    by (simp add: build_def str_join_snoc)
qed

text \<open>
  Claim C5, as stated, fails: \<^verbatim>\<open>limit\<close> tests \<^verbatim>\<open>if offset\<close>, so an offset of 0 that is
  given explicitly is treated like a missing one and no OFFSET is rendered.
\<close>

theorem limit_zero_offset_counterexample:
  "build (limit 10 (Some 0) DynamicSQLBuilder_init) = ''SELECT * LIMIT 10''
   \<and> build (limit 10 (Some 0) DynamicSQLBuilder_init) \<noteq> ''SELECT * LIMIT 10 OFFSET 0''"
proof -
  have "build (limit 10 (Some 0) DynamicSQLBuilder_init) = ''SELECT * LIMIT 10''"
    by code_simp
  then show ?thesis by simp
qed

text \<open>
  Claim C5, amended.  For every count \<open>n\<close> and every offset \<open>m\<close> other than 0,
  \<^verbatim>\<open>limit(n, m)\<close> makes \<^verbatim>\<open>build()\<close> end in \<^verbatim>\<open>LIMIT n OFFSET m\<close>; with no offset argument
  it ends in \<^verbatim>\<open>LIMIT n\<close> and nothing after it; in both cases what precedes is the rendering
  of the builder without any limit.  A later \<^verbatim>\<open>limit\<close> call replaces the earlier setting.
\<close>

theorem limit_renders_and_replaces:
  assumes "m \<noteq> 0"
  shows "build (limit n (Some m) b)
           = build (b\<lparr>qp_limit := None\<rparr>) @ '' LIMIT '' @ str_int n @ '' OFFSET '' @ str_int m
       \<and> build (limit n None b) = build (b\<lparr>qp_limit := None\<rparr>) @ '' LIMIT '' @ str_int n
       \<and> limit n' off' (limit n off b) = limit n' off' b"
proof -
  have "build (limit n (Some m) b)
          = build (b\<lparr>qp_limit := None\<rparr>) @ '' LIMIT '' @ str_int n @ '' OFFSET '' @ str_int m"
    using assms by (simp add: limit_def Let_def build_limit_some)
  moreover have "build (limit n None b) = build (b\<lparr>qp_limit := None\<rparr>) @ '' LIMIT '' @ str_int n"
    by (simp add: limit_def Let_def build_limit_some)
  moreover have "limit n' off' (limit n off b) = limit n' off' b"
    by (simp add: limit_def Let_def split: option.split)
  ultimately show ?thesis by simp
qed

theorem limit_renders_and_replaces_witness:
  "(3::int) \<noteq> 0
   \<and> build (limit 5 (Some 3) DynamicSQLBuilder_init) = ''SELECT * LIMIT 5 OFFSET 3''
   \<and> build (limit 5 None DynamicSQLBuilder_init) = ''SELECT * LIMIT 5''
   \<and> limit 7 None (limit 5 (Some 3) DynamicSQLBuilder_init) = limit 7 None DynamicSQLBuilder_init"
proof -
  have h: "(3::int) \<noteq> 0" by simp
  have s5: "str_int 5 = ''5''" by code_simp
  have s3: "str_int 3 = ''3''" by code_simp
  have b0: "build (DynamicSQLBuilder_init\<lparr>qp_limit := None\<rparr>) = ''SELECT *''"
    by (simp add: build_def build_parts_def DynamicSQLBuilder_init_def)
  show ?thesis
    using limit_renders_and_replaces
            [OF h, where n = 5 and b = DynamicSQLBuilder_init and n' = 7 and off' = None
               and off = "Some 3"]
          s5 s3 b0
    by simp
qed

subsection \<open>SELECT\<close>















subsection \<open>Joins without a source table\<close>

lemma build_without_from:
  assumes "qp_from b = []"
  shows "build b
       = ''SELECT ''
         @ (if str_join '', '' (qp_select b) \<noteq> [] then str_join '', '' (qp_select b) else ''*'')
         @ concat (map ((@) '' '') (qp_joins b))
         @ concat (map ((@) '' '') (drop (Suc (length (qp_joins b))) (build_parts b)))"
proof -
  have "build_parts b
      = (''SELECT '' @ (if str_join '', '' (qp_select b) \<noteq> [] then str_join '', '' (qp_select b) else ''*''))
        # qp_joins b @ drop (Suc (length (qp_joins b))) (build_parts b)"
    using assms by (simp add: build_parts_eq)
  then have "build b = str_join '' ''
      ((''SELECT '' @ (if str_join '', '' (qp_select b) \<noteq> [] then str_join '', '' (qp_select b) else ''*''))
        # qp_joins b @ drop (Suc (length (qp_joins b))) (build_parts b))"
    by (simp add: build_def)
  then show ?thesis
    by (simp add: str_join_Cons)
qed

lemma from_apply_call: "\<not> from_or_reset c \<Longrightarrow> qp_from (apply_call c b) = qp_from b"
  by (cases c)
     (simp_all add: select_def join_def where_cond_def group_by_def order_by_def limit_fields
        Let_def)

lemma joins_apply_call:
  "\<not> from_or_reset c \<Longrightarrow> qp_joins (apply_call c b) = qp_joins b @ join_clause_of c"
  by (cases c)
     (simp_all add: select_def join_def where_cond_def group_by_def order_by_def limit_fields
        Let_def)

lemma from_run: "\<forall>c \<in> set cs. \<not> from_or_reset c \<Longrightarrow> qp_from (run cs b) = qp_from b"
  unfolding run_def by (induction cs arbitrary: b) (simp_all add: from_apply_call)

lemma joins_run:
  "\<forall>c \<in> set cs. \<not> from_or_reset c \<Longrightarrow> qp_joins (run cs b) = qp_joins b @ join_clauses cs"
  unfolding run_def join_clauses_def
  by (induction cs arbitrary: b) (simp_all add: joins_apply_call)

text \<open>
  Claim C10.  Take a fresh builder and any sequence of calls in which the source table is
  never set (no \<^verbatim>\<open>from_table\<close>; no \<^verbatim>\<open>reset\<close> either, which would discard the joins), with
  \<^verbatim>\<open>join\<close> called any number of times among them.  Then the source table is still unset,
  the stored join clauses are those of the \<^verbatim>\<open>join\<close> calls in call order, and \<^verbatim>\<open>build()\<close>
  is the SELECT clause, then every one of these join clauses in that order, each after one
  space, then the remaining clauses: no FROM clause stands between the SELECT clause and
  the joins.
\<close>

theorem joins_follow_select_without_from:
  assumes "\<forall>c \<in> set calls. \<not> from_or_reset c"
  shows "qp_from (run calls DynamicSQLBuilder_init) = []
       \<and> qp_joins (run calls DynamicSQLBuilder_init) = join_clauses calls
       \<and> build (run calls DynamicSQLBuilder_init)
           = ''SELECT ''
             @ (if str_join '', '' (qp_select (run calls DynamicSQLBuilder_init)) \<noteq> []
                then str_join '', '' (qp_select (run calls DynamicSQLBuilder_init)) else ''*'')
             @ concat (map ((@) '' '') (join_clauses calls))
             @ concat (map ((@) '' '')
                 (drop (Suc (length (join_clauses calls)))
                    (build_parts (run calls DynamicSQLBuilder_init))))"
proof -
  have unset: "qp_from (run calls DynamicSQLBuilder_init) = []"
    using from_run [OF assms, of DynamicSQLBuilder_init] by (simp add: DynamicSQLBuilder_init_def)
  have joins: "qp_joins (run calls DynamicSQLBuilder_init) = join_clauses calls"
    using joins_run [OF assms, of DynamicSQLBuilder_init] by (simp add: DynamicSQLBuilder_init_def)
  show ?thesis
    using build_without_from [OF unset] unset joins by simp
qed

theorem joins_follow_select_without_from_witness:
  "\<not> from_or_reset (Select [''u.name''])
   \<and> \<not> from_or_reset (Join ''profiles p'' ''u.id = p.user_id'' ''LEFT'' None)
   \<and> \<not> from_or_reset (Where_cond ''u.active = 1'')
   \<and> \<not> from_or_reset (Join ''orders'' ''u.id = o.user_id'' ''INNER'' (Some ''o''))
   \<and> join_clauses [Select [''u.name''],
                    Join ''profiles p'' ''u.id = p.user_id'' ''LEFT'' None,
                    Where_cond ''u.active = 1'',
                    Join ''orders'' ''u.id = o.user_id'' ''INNER'' (Some ''o'')]
       = [''LEFT JOIN profiles p ON u.id = p.user_id'', ''INNER JOIN orders o ON u.id = o.user_id'']
   \<and> build (run [Select [''u.name''],
                  Join ''profiles p'' ''u.id = p.user_id'' ''LEFT'' None,
                  Where_cond ''u.active = 1'',
                  Join ''orders'' ''u.id = o.user_id'' ''INNER'' (Some ''o'')]
               DynamicSQLBuilder_init)
       = ''SELECT u.name LEFT JOIN profiles p ON u.id = p.user_id INNER JOIN orders o ON u.id = o.user_id WHERE u.active = 1''
   \<and> build (run [Join ''t'' ''c'' ''INNER'' None] DynamicSQLBuilder_init)
       = ''SELECT * INNER JOIN t ON c''"
proof -
  let ?calls = "[Select [''u.name''],
                 Join ''profiles p'' ''u.id = p.user_id'' ''LEFT'' None,
                 Where_cond ''u.active = 1'',
                 Join ''orders'' ''u.id = o.user_id'' ''INNER'' (Some ''o'')]"
  have h: "\<forall>c \<in> set ?calls. \<not> from_or_reset c" by simp
  have clauses: "join_clauses ?calls
       = [''LEFT JOIN profiles p ON u.id = p.user_id'', ''INNER JOIN orders o ON u.id = o.user_id'']"
    by (simp add: join_clauses_def table_ref_of_def)
  have selected: "qp_select (run ?calls DynamicSQLBuilder_init) = [''u.name'']"
    by (simp add: run_def select_def join_def where_cond_def Let_def DynamicSQLBuilder_init_def)
  have parts: "build_parts (run ?calls DynamicSQLBuilder_init)
       = [''SELECT u.name'', ''LEFT JOIN profiles p ON u.id = p.user_id'',
          ''INNER JOIN orders o ON u.id = o.user_id'', ''WHERE u.active = 1'']"
    by (simp add: build_parts_eq run_def select_def join_def where_cond_def Let_def
          table_ref_of_def DynamicSQLBuilder_init_def)
  have rendered: "build (run ?calls DynamicSQLBuilder_init)
       = ''SELECT u.name LEFT JOIN profiles p ON u.id = p.user_id INNER JOIN orders o ON u.id = o.user_id WHERE u.active = 1''"
    using joins_follow_select_without_from [OF h] clauses selected parts by simp
  have example: "build (run [Join ''t'' ''c'' ''INNER'' None] DynamicSQLBuilder_init)
       = ''SELECT * INNER JOIN t ON c''"
    by code_simp
  show ?thesis
    using clauses rendered example by simp
qed

section \<open>Properties of the template engine\<close>

subsection \<open>The scan covers the template\<close>

lemma not_id_char_dollar [simp]: "\<not> is_id_char CHR ''$''" "\<not> is_id_start CHR ''$''"
  by (simp_all add: is_id_char_def is_id_start_def id_start_chars_def)

lemma not_id_char_brace [simp]: "\<not> is_id_char CHR ''}''" "\<not> is_id_start CHR ''{''"
  by (simp_all add: is_id_char_def is_id_start_def id_start_chars_def)

lemma id_start_is_id_char: "is_id_start c \<Longrightarrow> is_id_char c"
  by (simp add: is_id_char_def is_id_start_def)

lemma pattern_match_text:
  assumes "pattern_match cs = (mo, rest)"
  shows "group mo @ rest = CHR ''$'' # cs"
proof (cases cs)
  case Nil
  with assms show ?thesis by (auto simp: pattern_match_def)
next
  case (Cons d ds)
  have split: "takeWhile is_id_char ds @ dropWhile is_id_char ds = ds"
    by (rule takeWhile_dropWhile_id)
  have named: "d # takeWhile is_id_char ds @ dropWhile is_id_char ds = d # ds"
    by (simp add: split)
  show ?thesis
    using assms Cons named
    by (auto simp: pattern_match_def id_start_is_id_char split: if_splits list.splits)
       (metis split append_Cons)+
qed

lemma scan_text: "concat (map piece_text (scan template)) = template"
proof (induction template rule: scan.induct)
  case 1
  show ?case by simp
next
  case (2 c cs)
  show ?case
  proof (cases "c = CHR ''$''")
    case False
    with 2 show ?thesis by simp
  next
    case True
    obtain mo rest where pm: "pattern_match cs = (mo, rest)" by (cases "pattern_match cs")
    with 2 True have "concat (map piece_text (scan rest)) = rest" by simp
    with pm True pattern_match_text [OF pm] show ?thesis by simp
  qed
qed

lemma safe_substitute_pieces:
  assumes "scan template = before @ [Match mo] @ after"
  shows "safe_substitute template mapping
       = concat (map (replace mapping) before) @ convert mapping mo
         @ concat (map (replace mapping) after)"
  using assms by (simp add: safe_substitute_def)

lemma template_pieces:
  assumes "scan template = before @ [Match mo] @ after"
  shows "template = concat (map piece_text before) @ group mo @ concat (map piece_text after)"
  using scan_text [of template] assms by simp

subsection \<open>Unknown template names\<close>

text \<open>
  Claim C1.  For a name that is not in the registry and any variables, \<^verbatim>\<open>generate_query\<close>
  raises the engine's only error, \<^verbatim>\<open>ValueError("Template '<name>' not found")\<close> (the
  specification's UnknownTemplateError); no string is returned, and the registry and the
  variables are as they were.
\<close>

theorem unknown_template_raises:
  assumes "self name = None"
  shows "generate_query self name variables
       = (Inl (ValueError (''Template '' @ [CHR 0x27] @ name @ [CHR 0x27] @ '' not found'')),
          self, variables)"
proof -
  have "generate_query self name variables
      = (case None :: string option of
           None \<Rightarrow>
             (Inl (ValueError (''Template '' @ [CHR 0x27] @ name @ [CHR 0x27] @ '' not found'')),
              self, variables)
         | Some template \<Rightarrow> (Inr (safe_substitute template variables), self, variables))"
    using assms by (simp add: generate_query_def)
  then show ?thesis by simp
qed

theorem unknown_template_raises_witness:
  "SQLTemplateEngine_init ''select_all'' = None
   \<and> generate_query SQLTemplateEngine_init ''select_all'' [''table'' \<mapsto> ''users'']
       = (Inl (ValueError (''Template '' @ [CHR 0x27] @ ''select_all'' @ [CHR 0x27] @ '' not found'')),
          SQLTemplateEngine_init, [''table'' \<mapsto> ''users''])"
proof -
  have h: "SQLTemplateEngine_init ''select_all'' = None"
    by (simp add: SQLTemplateEngine_init_def)
  show ?thesis
    using unknown_template_raises
            [where self = SQLTemplateEngine_init and name = "''select_all''"
               and variables = "[''table'' \<mapsto> ''users'']", OF h] h
    by simp
qed

subsection \<open>Placeholders without a value\<close>

text \<open>
  Claim C3.  Let a registered template scan as \<open>before\<close>, a placeholder match, \<open>after\<close>,
  and let the placeholder's name have no value in the variables.  Then the call does not
  fail, and its output is the rendering of \<open>before\<close>, the placeholder's own text, and the
  rendering of \<open>after\<close>: the token stands, unmodified, where it stood in the template,
  which is the text of \<open>before\<close>, the same token, and the text of \<open>after\<close>.  The token is
  \<^verbatim>\<open>$name\<close> or \<^verbatim>\<open>${name}\<close>.
\<close>

theorem missing_placeholder_left_verbatim:
  assumes "self name = Some template"
    and "scan template = before @ [Match mo] @ after"
    and "named_or_braced mo = Some key"
    and "variables key = None"
  shows "fst (generate_query self name variables)
           = Inr (concat (map (replace variables) before) @ group mo
                  @ concat (map (replace variables) after))
       \<and> template = concat (map piece_text before) @ group mo @ concat (map piece_text after)
       \<and> group mo \<in> {CHR ''$'' # key, ''${'' @ key @ ''}''}"
proof -
  have "convert variables mo = group mo"
    using assms(3,4) by (simp add: convert_def)
  moreover have "group mo \<in> {CHR ''$'' # key, ''${'' @ key @ ''}''}"
    using assms(3) by (cases mo) simp_all
  ultimately show ?thesis
    using assms(1) safe_substitute_pieces [OF assms(2)] template_pieces [OF assms(2)]
    by (simp add: generate_query_def)
qed

theorem missing_placeholder_left_verbatim_witness:
  "SQLTemplateEngine_init ''basic_select'' = Some ''SELECT $columns FROM $table''
   \<and> scan ''SELECT $columns FROM $table''
       = (map Text ''SELECT '' @ [Match (Named ''columns'')] @ map Text '' FROM '')
         @ [Match (Named ''table'')] @ []
   \<and> named_or_braced (Named ''table'') = Some ''table''
   \<and> [''columns'' \<mapsto> ''id, name''] ''table'' = None
   \<and> fst (generate_query SQLTemplateEngine_init ''basic_select'' [''columns'' \<mapsto> ''id, name''])
       = Inr ''SELECT id, name FROM $table''"
proof -
  have h1: "SQLTemplateEngine_init ''basic_select'' = Some ''SELECT $columns FROM $table''"
    by (simp add: SQLTemplateEngine_init_def)
  have h2: "scan ''SELECT $columns FROM $table''
       = (map Text ''SELECT '' @ [Match (Named ''columns'')] @ map Text '' FROM '')
         @ [Match (Named ''table'')] @ []"
    by code_simp
  have h3: "named_or_braced (Named ''table'') = Some ''table''" by simp
  have h4: "[''columns'' \<mapsto> ''id, name''] ''table'' = None" by simp
  show ?thesis
    using missing_placeholder_left_verbatim
            [where self = SQLTemplateEngine_init and name = "''basic_select''"
               and variables = "[''columns'' \<mapsto> ''id, name'']" and key = "''table''",
             OF h1 h2 h3 h4] h1 h2
    by (simp add: convert_def)
qed

subsection \<open>Values are not scanned again\<close>

text \<open>
  Claim C7.  The template is scanned once, from left to right, and each piece of the scan
  is replaced on its own.  Let a registered template scan as \<open>before\<close>, a placeholder
  match, \<open>after\<close>, and let the variables give the placeholder's name the value \<open>v\<close>.
  Then the output is the rendering of \<open>before\<close>, the value \<open>v\<close> exactly as given, and
  the rendering of \<open>after\<close>, whatever \<open>v\<close> contains: placeholder syntax inside it is
  neither expanded nor escaped.
\<close>

theorem substituted_value_inserted_literally:
  assumes "self name = Some template"
    and "scan template = before @ [Match mo] @ after"
    and "named_or_braced mo = Some key"
    and "variables key = Some v"
  shows "fst (generate_query self name variables)
           = Inr (concat (map (replace variables) before) @ v
                  @ concat (map (replace variables) after))"
proof -
  have "convert variables mo = v"
    using assms(3,4) by (simp add: convert_def)
  then show ?thesis
    using assms(1) safe_substitute_pieces [OF assms(2)] by (simp add: generate_query_def)
qed

theorem substituted_value_inserted_literally_witness:
  "add_template ''by_owner'' ''WHERE owner = $who;'' SQLTemplateEngine_init ''by_owner''
       = Some ''WHERE owner = $who;''
   \<and> scan ''WHERE owner = $who;''
       = map Text ''WHERE owner = '' @ [Match (Named ''who'')] @ map Text '';''
   \<and> named_or_braced (Named ''who'') = Some ''who''
   \<and> [''x'' \<mapsto> ''1'', ''who'' \<mapsto> ''$x ${x} $$''] ''who'' = Some ''$x ${x} $$''
   \<and> fst (generate_query (add_template ''by_owner'' ''WHERE owner = $who;'' SQLTemplateEngine_init)
            ''by_owner'' [''x'' \<mapsto> ''1'', ''who'' \<mapsto> ''$x ${x} $$''])
       = Inr ''WHERE owner = $x ${x} $$;''"
proof -
  have h1: "add_template ''by_owner'' ''WHERE owner = $who;'' SQLTemplateEngine_init ''by_owner''
       = Some ''WHERE owner = $who;''"
    by (simp add: add_template_def)
  have h2: "scan ''WHERE owner = $who;''
       = map Text ''WHERE owner = '' @ [Match (Named ''who'')] @ map Text '';''"
    by code_simp
  have h3: "named_or_braced (Named ''who'') = Some ''who''" by simp
  have h4: "[''x'' \<mapsto> ''1'', ''who'' \<mapsto> ''$x ${x} $$''] ''who'' = Some ''$x ${x} $$''" by simp
  show ?thesis
    using substituted_value_inserted_literally
            [where self = "add_template ''by_owner'' ''WHERE owner = $who;'' SQLTemplateEngine_init"
               and name = "''by_owner''" and key = "''who''"
               and variables = "[''x'' \<mapsto> ''1'', ''who'' \<mapsto> ''$x ${x} $$'']",
             OF h1 h2 h3 h4] h1 h2
    by simp
qed

subsection \<open>Escaped delimiters\<close>

lemma takeWhile_all_dollars:
  "\<forall>x \<in> set b. x = CHR ''$''
     \<Longrightarrow> length (takeWhile (\<lambda>c. c = CHR ''$'') (rev b)) = length b"
proof -
  assume "\<forall>x \<in> set b. x = CHR ''$''"
  then have "takeWhile (\<lambda>c. c = CHR ''$'') (rev b) = rev b"
    by (simp add: takeWhile_eq_all_conv)
  then show ?thesis by (metis length_rev)
qed

lemma dollars_before_past:
  assumes "c \<noteq> CHR ''$''"
  shows "dollars_before (a @ c # b) = dollars_before b"
proof (cases "\<forall>x \<in> set b. x = CHR ''$''")
  case True
  then show ?thesis
    using assms by (simp add: dollars_before_def takeWhile_append takeWhile_all_dollars)
next
  case False
  then show ?thesis
    by (auto simp: dollars_before_def takeWhile_append)
qed

lemma dollars_before_Cons:
  "c \<noteq> CHR ''$'' \<Longrightarrow> dollars_before (c # b) = dollars_before b"
  using dollars_before_past [of c "[]" b] by simp

lemma dollars_before_escaped:
  "even (dollars_before (CHR ''$'' # CHR ''$'' # b)) = even (dollars_before b)"
proof (cases "\<forall>x \<in> set b. x = CHR ''$''")
  case True
  then show ?thesis
    by (simp add: dollars_before_def takeWhile_append takeWhile_all_dollars)
next
  case False
  then show ?thesis
    by (auto simp: dollars_before_def takeWhile_append)
qed

lemma dollars_before_dropWhile:
  assumes "xs \<noteq> []"
  shows "dollars_before (dropWhile is_id_char xs) = dollars_before xs"
proof (cases "takeWhile is_id_char xs")
  case Nil
  then have "dropWhile is_id_char xs = xs"
    by (metis append_Nil takeWhile_dropWhile_id)
  then show ?thesis by simp
next
  case (Cons z zs)
  then have "is_id_char (last (z # zs))"
    by (metis last_in_set list.distinct(1) set_takeWhileD)
  then have nd: "last (z # zs) \<noteq> CHR ''$''" by auto
  have "xs = (butlast (z # zs) @ [last (z # zs)]) @ dropWhile is_id_char xs"
    by (metis Cons append_butlast_last_id list.distinct(1) takeWhile_dropWhile_id)
  then have "xs = butlast (z # zs) @ last (z # zs) # dropWhile is_id_char xs"
    by simp
  then have "dollars_before xs = dollars_before (dropWhile is_id_char xs)"
    using dollars_before_past [OF nd, of "butlast (z # zs)" "dropWhile is_id_char xs"] by simp
  then show ?thesis by simp
qed

text \<open>A text that follows a delimiter keeps its match when more text, starting with a
  delimiter, is appended to it.\<close>

lemma pattern_match_append:
  assumes "cs \<noteq> []"
  shows "pattern_match (cs @ CHR ''$'' # tail)
       = (fst (pattern_match cs), snd (pattern_match cs) @ CHR ''$'' # tail)"
proof -
  obtain d ds where cs: "cs = d # ds" using assms by (cases cs) auto
  have tw: "takeWhile is_id_char (xs @ CHR ''$'' # tail) = takeWhile is_id_char xs" for xs
    by (simp add: takeWhile_tail)
  have dw: "dropWhile is_id_char (xs @ CHR ''$'' # tail)
          = dropWhile is_id_char xs @ CHR ''$'' # tail" for xs
    by (simp add: dropWhile_append3)
  show ?thesis
  proof (cases ds)
    case Nil
    with cs show ?thesis
      using tw [of "[d]"] dw [of "[d]"]
      by (auto simp: pattern_match_def id_start_is_id_char)
  next
    case (Cons e es)
    show ?thesis
      using cs Cons tw [of "d # e # es"] dw [of "d # e # es"] tw [of "e # es"] dw [of "e # es"]
      by (auto simp: pattern_match_def id_start_is_id_char split: list.splits)
  qed
qed

lemma pattern_match_parity:
  assumes "cs \<noteq> []" and "pattern_match cs = (mo, rest)"
  shows "even (dollars_before (CHR ''$'' # cs)) = even (dollars_before rest)"
proof -
  obtain d ds where cs: "cs = d # ds" using assms(1) by (cases cs) auto
  show ?thesis
  proof (cases "d = CHR ''$''")
    case True
    with cs assms(2) have "rest = ds" by (simp add: pattern_match_def)
    with True cs show ?thesis by (simp add: dollars_before_escaped)
  next
    case False
    have whole: "dollars_before (CHR ''$'' # cs) = dollars_before ds"
      using dollars_before_past [OF False, of "''$''" ds] cs by simp
    have same: "dollars_before cs = dollars_before ds"
      using dollars_before_Cons [OF False] cs by simp
    show ?thesis
    proof (cases "is_id_start d")
      case True
      with False cs assms(2) have "rest = dropWhile is_id_char cs"
        by (simp add: pattern_match_def)
      then show ?thesis
        using dollars_before_dropWhile [OF assms(1)] whole same by simp
    next
      case nid: False
      show ?thesis
      proof (cases "rest = cs")
        case True
        then show ?thesis using whole same by simp
      next
        case ne: False
        with False nid cs assms(2) have br: "dropWhile is_id_char ds = CHR ''}'' # rest"
          by (auto simp: pattern_match_def split: if_splits list.splits)
        have "ds = takeWhile is_id_char ds @ CHR ''}'' # rest"
          using br takeWhile_dropWhile_id [of is_id_char ds] by simp
        then have "dollars_before ds = dollars_before rest"
          using dollars_before_past [of "CHR ''}''" "takeWhile is_id_char ds" rest] by simp
        then show ?thesis using whole by simp
      qed
    qed
  qed
qed

text \<open>After an even number of trailing delimiters the scan is at a match boundary.\<close>

lemma scan_append_dollar:
  "even (dollars_before pre)
     \<Longrightarrow> scan (pre @ CHR ''$'' # tail) = scan pre @ scan (CHR ''$'' # tail)"
proof (induction pre rule: scan.induct)
  case 1
  show ?case by simp
next
  case (2 c cs)
  show ?case
  proof (cases "c = CHR ''$''")
    case False
    with "2.prems" have "even (dollars_before cs)" by (simp add: dollars_before_Cons)
    with False "2.IH"(2) show ?thesis by simp
  next
    case True
    have ne: "cs \<noteq> []"
    proof
      assume "cs = []"
      with True "2.prems" show False by (simp add: dollars_before_def)
    qed
    obtain mo rest where pm: "pattern_match cs = (mo, rest)" by (cases "pattern_match cs")
    have "even (dollars_before rest)"
      using pattern_match_parity [OF ne pm] "2.prems" True by simp
    then have ih: "scan (rest @ CHR ''$'' # tail) = scan rest @ scan (CHR ''$'' # tail)"
      using "2.IH"(1) [OF True pm [symmetric]] by simp
    have "scan ((c # cs) @ CHR ''$'' # tail) = Match mo # scan (rest @ CHR ''$'' # tail)"
      using True pattern_match_append [OF ne, of tail] pm by simp
    also have "\<dots> = scan (c # cs) @ scan (CHR ''$'' # tail)"
      using True pm ih by simp
    finally show ?thesis .
  qed
qed

lemma scan_escaped: "scan (''$$'' @ post) = Match Escaped # scan post"
  by (simp add: pattern_match_def)

text \<open>
  Claim C9.  The scan reads a run of delimiters from the left, two by two, so the
  occurrences of \<^verbatim>\<open>$$\<close> in a pattern, counted from the left without overlap, are those
  preceded by an even number (possibly zero) of consecutive delimiters.  Each of them is
  rendered as one literal \<^verbatim>\<open>$\<close>, between the rendering of the text before it and the
  rendering of the text after it, for every mapping: it is never read as the start of a
  placeholder, whatever keys the mapping has.
\<close>

theorem escaped_delimiter_renders_single:
  assumes "self name = Some (pre @ ''$$'' @ post)"
    and "even (dollars_before pre)"
  shows "fst (generate_query self name variables)
       = Inr (safe_substitute pre variables @ ''$'' @ safe_substitute post variables)"
proof -
  have "scan (pre @ ''$$'' @ post) = scan pre @ Match Escaped # scan post"
    using scan_append_dollar [OF assms(2), of "CHR ''$'' # post"] scan_escaped [of post] by simp
  then have "safe_substitute (pre @ ''$$'' @ post) variables
           = safe_substitute pre variables @ ''$'' @ safe_substitute post variables"
    by (simp add: safe_substitute_def convert_def)
  with assms(1) show ?thesis by (simp add: generate_query_def)
qed

theorem escaped_delimiter_renders_single_witness:
  "add_template ''price'' (''cost '' @ ''$$'' @ ''$x'') SQLTemplateEngine_init ''price''
       = Some (''cost '' @ ''$$'' @ ''$x'')
   \<and> even (dollars_before ''cost '')
   \<and> fst (generate_query (add_template ''price'' (''cost '' @ ''$$'' @ ''$x'') SQLTemplateEngine_init)
            ''price'' [''x'' \<mapsto> ''5''])
       = Inr ''cost $5''"
proof -
  have h1: "add_template ''price'' (''cost '' @ ''$$'' @ ''$x'') SQLTemplateEngine_init ''price''
       = Some (''cost '' @ ''$$'' @ ''$x'')"
    by (simp add: add_template_def)
  have h2: "even (dollars_before ''cost '')"
    by (simp add: dollars_before_def)
  have p: "safe_substitute ''cost '' [''x'' \<mapsto> ''5''] = ''cost ''" by code_simp
  have q: "safe_substitute ''$x'' [''x'' \<mapsto> ''5''] = ''5''" by code_simp
  show ?thesis
    using escaped_delimiter_renders_single
            [where self = "add_template ''price'' (''cost '' @ ''$$'' @ ''$x'') SQLTemplateEngine_init"
               and name = "''price''" and variables = "[''x'' \<mapsto> ''5'']",
             OF h1 h2] h1 h2 p q
    by simp
qed

end
